theory Spec2Isabelle
  imports Complex_Main "HOL-Library.Sublist"
begin

section \<open>Data model of \<^verbatim>\<open>pyrixs/loaddata.py\<close>\<close>

text \<open>
  Exceptions of the Python code are values: every function that can raise returns
  \<open>error + 'a\<close>, with \<open>Inl\<close> carrying the exception.
\<close>

datatype error =
    ValueError
  | IndexError
  | UnboundLocalError
  | IOError string
  | Exception string

text \<open>
  A two-dimensional numpy array is its shape together with its elements in row-major
  order, which is what \<^verbatim>\<open>image.ravel()\<close> returns: \<open>shape0\<close> is
  \<^verbatim>\<open>image.shape[0]\<close> (rows), \<open>shape1\<close> is \<^verbatim>\<open>image.shape[1]\<close>
  (columns). Array elements and coordinates are read as real numbers; the rounding of
  64-bit floats and the range of 64-bit integers are outside this model.
\<close>

record image =
  shape0 :: nat
  shape1 :: nat
  ravel :: "real list"

definition wf_image :: "image \<Rightarrow> bool" where
  "wf_image img \<longleftrightarrow> length (ravel img) = shape0 img * shape1 img"

definition cell :: "image \<Rightarrow> nat \<Rightarrow> nat \<Rightarrow> real" where
  \<comment> \<open>\<^verbatim>\<open>image[r][c]\<close> for indices in range\<close>
  "cell img r c = ravel img ! (r * shape1 img + c)"

text \<open>A photon events array has one row \<open>(x, y, I)\<close> per event.\<close>

type_synonym event = "real \<times> real \<times> real"

definition ev_x :: "event \<Rightarrow> real" where
  "ev_x e = fst e"

definition ev_y :: "event \<Rightarrow> real" where
  "ev_y e = fst (snd e)"

definition ev_I :: "event \<Rightarrow> real" where
  "ev_I e = snd (snd e)"

section \<open>Image to photon events\<close>

definition arange_half :: "nat \<Rightarrow> real list" where
  \<comment> \<open>\<^verbatim>\<open>np.arange(n) + 0.5\<close>\<close>
  "arange_half n = map (\<lambda>k. real k + 1 / 2) [0..<n]"

definition meshgrid :: "real list \<Rightarrow> real list \<Rightarrow> real list list \<times> real list list" where
  \<comment> \<open>\<^verbatim>\<open>np.meshgrid(xs, ys)\<close>: both results have one row per element of \<open>ys\<close>\<close>
  "meshgrid xs ys = (map (\<lambda>y. xs) ys, map (\<lambda>y. map (\<lambda>x. y) xs) ys)"

definition vstack_transpose :: "real list \<Rightarrow> real list \<Rightarrow> real list \<Rightarrow> error + event list" where
  \<comment> \<open>\<^verbatim>\<open>np.vstack((a, b, c)).transpose()\<close>; vstack raises on rows of different lengths\<close>
  "vstack_transpose a b c =
     (if length a = length b \<and> length b = length c then Inr (zip a (zip b c))
      else Inl ValueError)"

definition image_to_photon_events :: "image \<Rightarrow> error + event list" where
  "image_to_photon_events img =
     (let (X, Y) = meshgrid (arange_half (shape1 img)) (arange_half (shape0 img))
      in vstack_transpose (concat X) (concat Y) (ravel img))"

section \<open>Photon events to image\<close>

definition astype_int :: "real \<Rightarrow> int" where
  \<comment> \<open>\<^verbatim>\<open>.astype(int)\<close> on a float array truncates toward zero\<close>
  "astype_int v = (if 0 \<le> v then \<lfloor>v\<rfloor> else \<lceil>v\<rceil>)"

fun amax :: "int list \<Rightarrow> error + int" where
  \<comment> \<open>\<^verbatim>\<open>a.max()\<close> raises ValueError on a zero-size array\<close>
  "amax [] = Inl ValueError"
| "amax (v # vs) = Inr (fold max vs v)"

definition zeros :: "int \<Rightarrow> int \<Rightarrow> error + image" where
  \<comment> \<open>\<^verbatim>\<open>np.zeros((r, c))\<close> raises ValueError on a negative dimension\<close>
  "zeros r c =
     (if r < 0 \<or> c < 0 then Inl ValueError
      else Inr \<lparr>shape0 = nat r, shape1 = nat c, ravel = replicate (nat r * nat c) 0\<rparr>)"

definition norm_index :: "nat \<Rightarrow> int \<Rightarrow> error + nat" where
  \<comment> \<open>an index into an axis of length \<open>n\<close>: negative indices count from the end\<close>
  "norm_index n i =
     (if i < - int n \<or> int n \<le> i then Inl IndexError
      else Inr (nat (if i < 0 then i + int n else i)))"

text \<open>
  The assignment \<^verbatim>\<open>image[yind, xind] = I\<close> with index arrays writes one element per
  event. numpy performs the writes in the order of the index arrays, so that the last of
  several writes to one element remains; the model does the same. An index out of range
  raises IndexError and no image is returned.
\<close>

fun setitem :: "image \<Rightarrow> (int \<times> int \<times> real) list \<Rightarrow> error + image" where
  \<comment> \<open>\<^verbatim>\<open>image[yind, xind] = I\<close>, one assignment per event, in order\<close>
  "setitem img [] = Inr img"
| "setitem img ((r, c, v) # rest) =
     (case norm_index (shape0 img) r of
        Inl e \<Rightarrow> Inl e
      | Inr r' \<Rightarrow>
          (case norm_index (shape1 img) c of
             Inl e \<Rightarrow> Inl e
           | Inr c' \<Rightarrow>
               setitem (img\<lparr>ravel := (ravel img)[r' * shape1 img + c' := v]\<rparr>) rest))"

text \<open>
  The indices \<^verbatim>\<open>(x-0.5).astype(int)\<close> and \<^verbatim>\<open>(y-0.5).astype(int)\<close>. The difference is
  taken over the reals. For a 64-bit float \<open>v\<close> the rounded difference has the same
  truncation: it is exact for \<open>0.25 \<le> v < 2^52\<close>, which covers every pixel-center value,
  and for \<open>-0.5 + 2^(-53) \<le> v < 0.25\<close> it stays strictly between \<open>-1\<close> and \<open>0\<close>. The one
  float above \<open>-0.5\<close> where it differs is \<open>-0.5 + 2^(-54)\<close>, whose difference with \<open>0.5\<close>
  rounds to \<open>-1.0\<close>; statements about coordinates off the pixel-center convention
  therefore take coordinates of at least \<open>-0.5 + 2^(-53)\<close>.
\<close>

definition xind :: "event list \<Rightarrow> int list" where
  "xind photon_events = map (\<lambda>e. astype_int (ev_x e - 1 / 2)) photon_events"

definition yind :: "event list \<Rightarrow> int list" where
  "yind photon_events = map (\<lambda>e. astype_int (ev_y e - 1 / 2)) photon_events"

definition photon_events_to_image :: "event list \<Rightarrow> error + image" where
  "photon_events_to_image photon_events =
     (case amax (yind photon_events) of
        Inl e \<Rightarrow> Inl e
      | Inr ymax \<Rightarrow>
          (case amax (xind photon_events) of
             Inl e \<Rightarrow> Inl e
           | Inr xmax \<Rightarrow>
               (case zeros (ymax + 1) (xmax + 1) of
                  Inl e \<Rightarrow> Inl e
                | Inr img \<Rightarrow>
                    setitem img
                      (zip (yind photon_events)
                         (zip (xind photon_events) (map ev_I photon_events))))))"

section \<open>Loaders\<close>

text \<open>
  The file readers are parameters: each takes the file name and returns what it read or the
  exception it raised. Output written by \<^verbatim>\<open>print\<close> is returned as a list of lines.
  File names are ASCII strings.
\<close>

definition lower_char :: "char \<Rightarrow> char" where
  "lower_char c =
     (case map_of (zip ''ABCDEFGHIJKLMNOPQRSTUVWXYZ'' ''abcdefghijklmnopqrstuvwxyz'') c of
        None \<Rightarrow> c
      | Some l \<Rightarrow> l)"

definition lower :: "string \<Rightarrow> string" where
  "lower s = map lower_char s"

definition last_chars :: "nat \<Rightarrow> string \<Rightarrow> string" where
  \<comment> \<open>\<^verbatim>\<open>s[-n:]\<close>: the whole string when it is shorter than \<open>n\<close>\<close>
  "last_chars n s = (if length s \<le> n then s else drop (length s - n) s)"

fun str_contains :: "string \<Rightarrow> string \<Rightarrow> bool" where
  \<comment> \<open>\<^verbatim>\<open>sub in s\<close>\<close>
  "str_contains sub [] = (sub = [])"
| "str_contains sub (c # cs) = (take (length sub) (c # cs) = sub \<or> str_contains sub cs)"

definition basename :: "string \<Rightarrow> string" where
  \<comment> \<open>\<^verbatim>\<open>filename.split('/')[-1]\<close>\<close>
  "basename s = rev (takeWhile (\<lambda>c. c \<noteq> CHR ''/'') (rev s))"

definition digit_char :: "nat \<Rightarrow> char" where
  "digit_char d = ''0123456789'' ! d"

fun format_d :: "nat \<Rightarrow> string" where
  \<comment> \<open>\<^verbatim>\<open>'{:d}'.format(n)\<close>\<close>
  "format_d n =
     (if n < 10 then [digit_char n] else format_d (n div 10) @ [digit_char (n mod 10)])"

declare format_d.simps [simp del]

definition load_nxfile ::
  "(string \<Rightarrow> error + (string \<times> image list) list) \<Rightarrow> string \<Rightarrow> string list \<times> (error + image list)"
where
  \<comment> \<open>\<open>nxload\<close> gives the entries of the file in order, each key with the frames
      under \<^verbatim>\<open>scan_data.data_01.nxdata\<close>; the last key containing \<^verbatim>\<open>scan\<close> is used\<close>
  "load_nxfile nxload filename =
     (case nxload filename of
        Inl e \<Rightarrow> ([], Inl e)
      | Inr fload \<Rightarrow>
          (case filter (\<lambda>(key, data). str_contains ''scan'' key) fload of
             [] \<Rightarrow> ([], Inl UnboundLocalError)
           | hit # hits \<Rightarrow>
               (let data = snd (last (hit # hits))
                in ([''NXS file '' @ basename filename @ '' contains '' @
                       format_d (length data) @ '' image(s).''],
                    Inr data))))"

datatype image_data =
    PhotonEvents "event list"
  | PhotonEventsList "event list list"
  | NoneValue

fun map_result :: "('a \<Rightarrow> error + 'b) \<Rightarrow> 'a list \<Rightarrow> error + 'b list" where
  \<comment> \<open>a list comprehension whose body may raise\<close>
  "map_result f [] = Inr []"
| "map_result f (a # as) =
     (case f a of
        Inl e \<Rightarrow> Inl e
      | Inr b \<Rightarrow> (case map_result f as of Inl e \<Rightarrow> Inl e | Inr bs \<Rightarrow> Inr (b # bs)))"

definition get_image ::
  "(string \<Rightarrow> error + (real \<times> real) list) \<Rightarrow> (string \<Rightarrow> error + image) \<Rightarrow>
   (string \<Rightarrow> error + (string \<times> image list) list) \<Rightarrow> string \<Rightarrow>
   string list \<times> (error + image_data)"
where
  "get_image h5_events imread nxload filename =
     (if lower (last_chars 3 filename) = ''.h5'' then
        (case h5_events filename of
           Inl e \<Rightarrow> ([], Inl e)
         | Inr XY \<Rightarrow> ([], Inr (PhotonEvents (map (\<lambda>(x, y). (x, y, 1)) XY))))
      else if lower (last_chars 4 filename) = ''.tif'' then
        (case imread filename of
           Inl e \<Rightarrow> ([], Inl e)
         | Inr img \<Rightarrow>
             (case image_to_photon_events img of
                Inl e \<Rightarrow> ([], Inl e)
              | Inr evs \<Rightarrow> ([], Inr (PhotonEvents evs))))
      else if lower (last_chars 4 filename) = ''.nxs'' then
        (case load_nxfile nxload filename of
           (out, Inl e) \<Rightarrow> (out, Inl e)
         | (out, Inr imgs) \<Rightarrow>
             (case map_result image_to_photon_events imgs of
                Inl e \<Rightarrow> (out, Inl e)
              | Inr evss \<Rightarrow> (out, Inr (PhotonEventsList evss))))
      else ([''Unknown file extention '' @ filename], Inr NoneValue))"

definition get_spectrum ::
  "(string \<Rightarrow> error + real list list) \<Rightarrow> (string \<Rightarrow> error + real list) \<Rightarrow> string \<Rightarrow>
   error + real list list"
where
  \<comment> \<open>\<open>loadtxt\<close> is \<^verbatim>\<open>np.loadtxt\<close>; \<open>h5_spectrum\<close> reads the intensity
      array of an HDF5 file\<close>
  "get_spectrum loadtxt h5_spectrum filename =
     (if last_chars 4 filename = ''.txt'' then loadtxt filename
      else if last_chars 4 filename = ''.dat'' then loadtxt filename
      else if last_chars 4 filename = ''.spec'' then loadtxt filename
      else if lower (last_chars 3 filename) = ''.h5'' then
        (case h5_spectrum filename of
           Inl e \<Rightarrow> Inl e
         | Inr I \<Rightarrow> Inr (map (\<lambda>(i, v). [real i, v, v]) (zip [0..<length I] I)))
      else Inl (Exception ''Wrong file extension''))"

section \<open>Notions of the specification\<close>

text \<open>
  The pixel-center convention: a coordinate is an integer pixel index, not negative,
  plus one half.
\<close>

definition pixel_center :: "real \<Rightarrow> bool" where
  "pixel_center v \<longleftrightarrow> 1 / 2 \<le> v \<and> of_int \<lfloor>v - 1 / 2\<rfloor> = v - 1 / 2"

definition pixel_centered :: "event list \<Rightarrow> bool" where
  "pixel_centered evs \<longleftrightarrow> list_all (\<lambda>e. pixel_center (ev_x e) \<and> pixel_center (ev_y e)) evs"

text \<open>
  The events that the floor-based contract maps to the cell in row \<open>r\<close> and column \<open>c\<close>,
  in their order in the sequence.
\<close>

definition events_at :: "event list \<Rightarrow> nat \<Rightarrow> nat \<Rightarrow> event list" where
  "events_at evs r c =
     filter (\<lambda>e. \<lfloor>ev_y e - 1 / 2\<rfloor> = int r \<and> \<lfloor>ev_x e - 1 / 2\<rfloor> = int c) evs"

text \<open>A file name has an extension when it ends with it, letter case ignored.\<close>

definition has_extension :: "string \<Rightarrow> string \<Rightarrow> bool" where
  "has_extension ext filename \<longleftrightarrow> suffix ext (lower filename)"

section \<open>Notions used in the proofs\<close>

text \<open>
  The events that the truncated indices of the code assign to the cell in row \<open>r\<close> and
  column \<open>c\<close>, in their order in the sequence.
\<close>

definition assigned_at :: "event list \<Rightarrow> nat \<Rightarrow> nat \<Rightarrow> event list" where
  "assigned_at evs r c =
     filter (\<lambda>e. astype_int (ev_y e - 1 / 2) = int r \<and> astype_int (ev_x e - 1 / 2) = int c) evs"

text \<open>The position in the row-major buffer that an assignment of \<open>setitem\<close> writes.\<close>

definition flat_index :: "nat \<Rightarrow> int \<times> int \<times> real \<Rightarrow> nat" where
  "flat_index C w = nat (fst w) * C + nat (fst (snd w))"

section \<open>Auxiliary facts\<close>

subsection \<open>Row-major enumeration\<close>

lemma length_arange_half: "length (arange_half n) = n"
  by (simp add: arange_half_def)

lemma nth_arange_half: "k < n \<Longrightarrow> arange_half n ! k = real k + 1 / 2"
  by (simp add: arange_half_def)

lemma length_concat_const: "length (concat (map (\<lambda>y. xs) ys)) = length ys * length xs"
  by (induction ys) simp_all

lemma length_concat_rows:
  "length (concat (map (\<lambda>y. map (\<lambda>x. y) xs) ys)) = length ys * length xs"
  by (induction ys) simp_all

lemma nth_concat_const:
  "k < length ys * length xs \<Longrightarrow> concat (map (\<lambda>y. xs) ys) ! k = xs ! (k mod length xs)"
proof (induction ys arbitrary: k)
  case Nil
  then show ?case by simp
next
  case (Cons y ys)
  show ?case
  proof (cases "k < length xs")
    case True
    then show ?thesis by (simp add: nth_append)
  next
    case False
    with Cons.prems have "k - length xs < length ys * length xs" by simp
    from Cons.IH [OF this] False show ?thesis
      by (simp add: nth_append le_mod_geq)
  qed
qed

lemma nth_concat_rows:
  "k < length ys * length xs \<Longrightarrow>
   concat (map (\<lambda>y. map (\<lambda>x. y) xs) ys) ! k = ys ! (k div length xs)"
proof (induction ys arbitrary: k)
  case Nil
  then show ?case by simp
next
  case (Cons y ys)
  show ?case
  proof (cases "k < length xs")
    case True
    then show ?thesis by (simp add: nth_append)
  next
    case False
    with Cons.prems have "k - length xs < length ys * length xs" by simp
    moreover from Cons.prems have "0 < length xs" by (cases xs) simp_all
    ultimately show ?thesis
      using Cons.IH [of "k - length xs"] False by (simp add: nth_append le_div_geq)
  qed
qed

text \<open>
  The events of a well-formed image in closed form: event \<open>k\<close> belongs to column
  \<open>k mod C\<close> of row \<open>k div C\<close>.
\<close>

lemma image_to_photon_events_closed:
  assumes "wf_image img"
  shows "image_to_photon_events img =
         Inr (map (\<lambda>k. (real (k mod shape1 img) + 1 / 2, real (k div shape1 img) + 1 / 2,
                         ravel img ! k)) [0..<shape0 img * shape1 img])"
proof -
  let ?R = "shape0 img" and ?C = "shape1 img"
  let ?X = "concat (map (\<lambda>y. arange_half ?C) (arange_half ?R))"
  let ?Y = "concat (map (\<lambda>y. map (\<lambda>x. y) (arange_half ?C)) (arange_half ?R))"
  have lx: "length ?X = ?R * ?C" by (simp add: length_concat_const length_arange_half)
  have ly: "length ?Y = ?R * ?C" by (simp add: length_concat_rows length_arange_half)
  have lz: "length (ravel img) = ?R * ?C" using assms by (simp add: wf_image_def)
  have nx: "?X ! k = real (k mod ?C) + 1 / 2" if "k < ?R * ?C" for k
  proof -
    from that have "0 < ?C" by (cases "?C") simp_all
    then have "k mod ?C < ?C" by simp
    with that show ?thesis
      by (simp add: nth_concat_const length_arange_half nth_arange_half)
  qed
  have ny: "?Y ! k = real (k div ?C) + 1 / 2" if "k < ?R * ?C" for k
  proof -
    from that have "k div ?C < ?R"
      by (simp add: less_mult_imp_div_less)
    with that show ?thesis
      by (simp add: nth_concat_rows length_arange_half nth_arange_half)
  qed
  have "zip ?X (zip ?Y (ravel img)) =
        map (\<lambda>k. (real (k mod ?C) + 1 / 2, real (k div ?C) + 1 / 2, ravel img ! k)) [0..<?R * ?C]"
    by (rule nth_equalityI) (simp_all add: lx ly lz nx ny)
  then show ?thesis
    by (simp add: image_to_photon_events_def meshgrid_def vstack_transpose_def lx ly lz)
qed

subsection \<open>Assignment of the events\<close>

lemma amax_Max: "vs \<noteq> [] \<Longrightarrow> amax vs = Inr (Max (set vs))"
  by (cases vs) (simp_all add: Max.set_eq_fold del: set_simps)

lemma filter_eq_upt: "filter (\<lambda>j. j = k) [0..<n] = (if k < n then [k] else [])"
  by (induction n) auto

lemma norm_index_inrange: "0 \<le> i \<Longrightarrow> i < int n \<Longrightarrow> norm_index n i = Inr (nat i)"
  by (simp add: norm_index_def)

lemma setitem_inrange:
  assumes "\<forall>w\<in>set ws. 0 \<le> fst w \<and> fst w < int (shape0 img) \<and>
                      0 \<le> fst (snd w) \<and> fst (snd w) < int (shape1 img)"
  shows "\<exists>img'. setitem img ws = Inr img' \<and> shape0 img' = shape0 img \<and>
           shape1 img' = shape1 img \<and> length (ravel img') = length (ravel img) \<and>
           (\<forall>k<length (ravel img). ravel img' ! k =
              (if filter (\<lambda>w. flat_index (shape1 img) w = k) ws = [] then ravel img ! k
               else snd (snd (last (filter (\<lambda>w. flat_index (shape1 img) w = k) ws)))))"
  using assms
proof (induction ws arbitrary: img)
  case Nil
  then show ?case by simp
next
  case (Cons w ws)
  obtain r c v where w: "w = (r, c, v)" by (cases w) auto
  let ?img2 = "img\<lparr>ravel := (ravel img)[nat r * shape1 img + nat c := v]\<rparr>"
  from Cons.prems w have rng: "0 \<le> r" "r < int (shape0 img)" "0 \<le> c" "c < int (shape1 img)"
    by simp_all
  have step: "setitem img (w # ws) = setitem ?img2 ws"
    using rng by (simp add: w norm_index_inrange)
  have "\<forall>w\<in>set ws. 0 \<le> fst w \<and> fst w < int (shape0 ?img2) \<and>
                   0 \<le> fst (snd w) \<and> fst (snd w) < int (shape1 ?img2)"
    using Cons.prems by simp
  from Cons.IH [OF this] obtain img' where
    r: "setitem ?img2 ws = Inr img'" and
    s: "shape0 img' = shape0 img" "shape1 img' = shape1 img"
       "length (ravel img') = length (ravel img)" and
    n: "\<And>k. k < length (ravel img) \<Longrightarrow> ravel img' ! k =
          (if filter (\<lambda>w. flat_index (shape1 img) w = k) ws = [] then ravel ?img2 ! k
           else snd (snd (last (filter (\<lambda>w. flat_index (shape1 img) w = k) ws))))"
    by auto
  have "ravel img' ! k =
          (if filter (\<lambda>w. flat_index (shape1 img) w = k) (w # ws) = [] then ravel img ! k
           else snd (snd (last (filter (\<lambda>w. flat_index (shape1 img) w = k) (w # ws)))))"
    if "k < length (ravel img)" for k
    using n [OF that] that by (auto simp: w flat_index_def)
  with r s step show ?case by simp
qed


lemma flat_index_inj:
  fixes a b r c C :: nat
  assumes "b < C" "c < C"
  shows "a * C + b = r * C + c \<longleftrightarrow> a = r \<and> b = c"
proof
  assume eq: "a * C + b = r * C + c"
  from assms have "(a * C + b) div C = a" "(r * C + c) div C = r" by simp_all
  with eq have "a = r" by simp
  with eq show "a = r \<and> b = c" by simp
qed simp

lemma flat_index_eq:
  assumes "0 \<le> a" "0 \<le> b" "b < int C" "c < C"
  shows "flat_index C (a, b, v) = r * C + c \<longleftrightarrow> a = int r \<and> b = int c"
proof -
  from assms have "nat b < C" by simp
  from flat_index_inj [OF this assms(4), of "nat a" r] assms(1,2) show ?thesis
    by (auto simp: flat_index_def)
qed

lemma astype_int_nonneg: "- 1 / 2 < v \<Longrightarrow> 0 \<le> astype_int (v - 1 / 2)"
  unfolding astype_int_def by (auto simp: le_ceiling_iff)

lemma zip_indices:
  "zip (yind evs) (zip (xind evs) (map ev_I evs)) =
   map (\<lambda>e. (astype_int (ev_y e - 1 / 2), astype_int (ev_x e - 1 / 2), ev_I e)) evs"
  by (induction evs) (simp_all add: xind_def yind_def)

lemma photon_events_to_image_cells:
  assumes ne: "evs \<noteq> []"
    and pos: "\<forall>e\<in>set evs. - 1 / 2 < ev_x e \<and> - 1 / 2 < ev_y e"
  shows "\<exists>img. photon_events_to_image evs = Inr img \<and> wf_image img \<and>
           int (shape0 img) = Max (set (yind evs)) + 1 \<and>
           int (shape1 img) = Max (set (xind evs)) + 1 \<and>
           (\<forall>r<shape0 img. \<forall>c<shape1 img. cell img r c =
              (if assigned_at evs r c = [] then 0 else ev_I (last (assigned_at evs r c))))"
proof -
  let ?yi = "\<lambda>e. astype_int (ev_y e - 1 / 2)" and ?xi = "\<lambda>e. astype_int (ev_x e - 1 / 2)"
  let ?f = "\<lambda>e. (?yi e, ?xi e, ev_I e)"
  define ymax where "ymax = Max (set (yind evs))"
  define xmax where "xmax = Max (set (xind evs))"
  define R where "R = nat (ymax + 1)"
  define C where "C = nat (xmax + 1)"
  define z where "z = \<lparr>shape0 = R, shape1 = C, ravel = replicate (R * C) 0\<rparr>"
  have yne: "yind evs \<noteq> []" and xne: "xind evs \<noteq> []"
    using ne by (simp_all add: xind_def yind_def)
  have ybound: "0 \<le> ?yi e \<and> ?yi e \<le> ymax" if "e \<in> set evs" for e
    using that pos by (auto simp: ymax_def yind_def astype_int_nonneg)
  have xbound: "0 \<le> ?xi e \<and> ?xi e \<le> xmax" if "e \<in> set evs" for e
    using that pos by (auto simp: xmax_def xind_def astype_int_nonneg)
  from ne obtain e0 where e0: "e0 \<in> set evs" by (cases evs) auto
  have ymax0: "0 \<le> ymax" using ybound [OF e0] by simp
  have xmax0: "0 \<le> xmax" using xbound [OF e0] by simp
  have zs: "zeros (ymax + 1) (xmax + 1) = Inr z"
    using ymax0 xmax0 by (simp add: zeros_def z_def R_def C_def)
  have ay: "amax (yind evs) = Inr ymax" unfolding ymax_def by (rule amax_Max [OF yne])
  have ax: "amax (xind evs) = Inr xmax" unfolding xmax_def by (rule amax_Max [OF xne])
  have unfold: "photon_events_to_image evs = setitem z (map ?f evs)"
    unfolding photon_events_to_image_def ay ax zip_indices by (simp add: zs)
  have "\<forall>w\<in>set (map ?f evs). 0 \<le> fst w \<and> fst w < int (shape0 z) \<and>
                                0 \<le> fst (snd w) \<and> fst (snd w) < int (shape1 z)"
    using ybound xbound ymax0 xmax0 by (auto simp: z_def R_def C_def)
  from setitem_inrange [OF this] obtain img where
    r: "setitem z (map ?f evs) = Inr img" and
    s: "shape0 img = R" "shape1 img = C" "length (ravel img) = R * C" and
    n: "\<And>k. k < R * C \<Longrightarrow> ravel img ! k =
          (if filter (\<lambda>w. flat_index C w = k) (map ?f evs) = [] then ravel z ! k
           else snd (snd (last (filter (\<lambda>w. flat_index C w = k) (map ?f evs)))))"
    by (auto simp: z_def)
  have cells: "cell img r c =
      (if filter (\<lambda>e. ?yi e = int r \<and> ?xi e = int c) evs = [] then 0
       else ev_I (last (filter (\<lambda>e. ?yi e = int r \<and> ?xi e = int c) evs)))"
    if rc: "r < R" "c < C" for r c
  proof -
    have k: "r * C + c < R * C"
    proof -
      from rc have "r * C + c < r * C + C" by simp
      also have "\<dots> = Suc r * C" by simp
      also from rc have "\<dots> \<le> R * C" by (intro mult_le_mono1) simp
      finally show ?thesis .
    qed
    have same: "(flat_index C (?f e) = r * C + c) = (?yi e = int r \<and> ?xi e = int c)"
      if "e \<in> set evs" for e
    proof -
      from xbound [OF that] xmax0 have "?xi e < int C" by (simp add: C_def)
      with ybound [OF that] xbound [OF that] rc(2) show ?thesis
        by (intro flat_index_eq) simp_all
    qed
    have "filter (\<lambda>e. flat_index C (?f e) = r * C + c) evs =
          filter (\<lambda>e. ?yi e = int r \<and> ?xi e = int c) evs"
      by (rule filter_cong [OF refl]) (rule same)
    then have flt: "filter (\<lambda>w. flat_index C w = r * C + c) (map ?f evs) =
               map ?f (filter (\<lambda>e. ?yi e = int r \<and> ?xi e = int c) evs)"
      by (simp add: filter_map comp_def)
    show ?thesis
      using n [OF k] k by (simp add: cell_def s flt last_map z_def)
  qed
  have "wf_image img" by (simp add: wf_image_def s)
  moreover have "int (shape0 img) = ymax + 1" "int (shape1 img) = xmax + 1"
    using ymax0 xmax0 by (simp_all add: s R_def C_def)
  ultimately show ?thesis
    using unfold r cells s by (simp add: ymax_def xmax_def assigned_at_def)
qed

lemma pixel_centered_floor:
  assumes "pixel_centered evs" "e \<in> set evs"
  shows "astype_int (ev_x e - 1 / 2) = \<lfloor>ev_x e - 1 / 2\<rfloor>"
    and "astype_int (ev_y e - 1 / 2) = \<lfloor>ev_y e - 1 / 2\<rfloor>"
    and "- 1 / 2 < ev_x e" and "- 1 / 2 < ev_y e"
  using assms by (auto simp: pixel_centered_def pixel_center_def list_all_iff astype_int_def)

lemma pixel_centered_indices:
  assumes "pixel_centered evs"
  shows "xind evs = map (\<lambda>e. \<lfloor>ev_x e - 1 / 2\<rfloor>) evs"
    and "yind evs = map (\<lambda>e. \<lfloor>ev_y e - 1 / 2\<rfloor>) evs"
    and "assigned_at evs r c = events_at evs r c"
proof -
  show "xind evs = map (\<lambda>e. \<lfloor>ev_x e - 1 / 2\<rfloor>) evs"
    unfolding xind_def by (rule map_cong [OF refl]) (rule pixel_centered_floor [OF assms])
  show "yind evs = map (\<lambda>e. \<lfloor>ev_y e - 1 / 2\<rfloor>) evs"
    unfolding yind_def by (rule map_cong [OF refl]) (rule pixel_centered_floor [OF assms])
  show "assigned_at evs r c = events_at evs r c"
    unfolding assigned_at_def events_at_def
    by (rule filter_cong [OF refl]) (simp add: pixel_centered_floor [OF assms])
qed



subsection \<open>Complete listings\<close>

lemma astype_int_of_nat: "astype_int (real n) = int n"
  by (simp add: astype_int_def)

lemma Max_div_upt:
  assumes "0 < R" "0 < C"
  shows "Max (set (map (\<lambda>k. int (k div C)) [0..<R * C])) = int R - 1"
proof (rule Max_eqI)
  show "finite (set (map (\<lambda>k. int (k div C)) [0..<R * C]))" by simp
next
  fix y assume "y \<in> set (map (\<lambda>k. int (k div C)) [0..<R * C])"
  then obtain k where k: "k < R * C" "y = int (k div C)" by auto
  from k(1) have "k div C < R" by (simp add: less_mult_imp_div_less)
  with k(2) show "y \<le> int R - 1" by simp
next
  from assms have "(R - 1) * C < R * C" by simp
  moreover from assms have "int (((R - 1) * C) div C) = int R - 1" by (simp add: of_nat_diff)
  ultimately show "int R - 1 \<in> set (map (\<lambda>k. int (k div C)) [0..<R * C])"
    by (metis (mono_tags, lifting) atLeast0LessThan lessThan_iff image_eqI set_map set_upt)
qed

lemma Max_mod_upt:
  assumes "0 < R" "0 < C"
  shows "Max (set (map (\<lambda>k. int (k mod C)) [0..<R * C])) = int C - 1"
proof (rule Max_eqI)
  show "finite (set (map (\<lambda>k. int (k mod C)) [0..<R * C]))" by simp
next
  fix y assume "y \<in> set (map (\<lambda>k. int (k mod C)) [0..<R * C])"
  then obtain k where k: "k < R * C" "y = int (k mod C)" by auto
  from assms have "k mod C < C" by simp
  with k(2) show "y \<le> int C - 1" by simp
next
  from assms have "C - 1 < 1 * C" by simp
  also from assms have "1 * C \<le> R * C" by (intro mult_le_mono1) simp
  finally have "C - 1 < R * C" .
  moreover from assms have "int ((C - 1) mod C) = int C - 1" by (simp add: of_nat_diff)
  ultimately show "int C - 1 \<in> set (map (\<lambda>k. int (k mod C)) [0..<R * C])"
    by (metis (mono_tags, lifting) atLeast0LessThan lessThan_iff image_eqI set_map set_upt)
qed

lemma photon_events_to_image_grid:
  assumes len: "length data = R * C" and ne: "1 \<le> R * C"
  shows "photon_events_to_image
           (map (\<lambda>k. (real (k mod C) + 1 / 2, real (k div C) + 1 / 2, data ! k)) [0..<R * C]) =
         Inr \<lparr>shape0 = R, shape1 = C, ravel = data\<rparr>"
proof -
  let ?g = "\<lambda>k. (real (k mod C) + 1 / 2, real (k div C) + 1 / 2, data ! k)"
  let ?evs = "map ?g [0..<R * C]"
  from ne have R: "0 < R" by (cases R) simp_all
  from ne have C: "0 < C" by (cases C) simp_all
  have evne: "?evs \<noteq> []" using ne by simp
  have pos: "\<forall>e\<in>set ?evs. - 1 / 2 < ev_x e \<and> - 1 / 2 < ev_y e"
    by (auto simp: ev_x_def ev_y_def)
  have yi: "yind ?evs = map (\<lambda>k. int (k div C)) [0..<R * C]"
    by (simp add: yind_def ev_y_def astype_int_of_nat comp_def)
  have xi: "xind ?evs = map (\<lambda>k. int (k mod C)) [0..<R * C]"
    by (simp add: xind_def ev_x_def astype_int_of_nat comp_def)
  from photon_events_to_image_cells [OF evne pos] obtain img where
    r: "photon_events_to_image ?evs = Inr img" and wf: "wf_image img" and
    s0: "int (shape0 img) = Max (set (yind ?evs)) + 1" and
    s1: "int (shape1 img) = Max (set (xind ?evs)) + 1" and
    n: "\<And>r c. r < shape0 img \<Longrightarrow> c < shape1 img \<Longrightarrow> cell img r c =
          (if assigned_at ?evs r c = [] then 0 else ev_I (last (assigned_at ?evs r c)))"
    by blast
  from s0 have sR: "shape0 img = R" unfolding yi Max_div_upt [OF R C] by simp
  from s1 have sC: "shape1 img = C" unfolding xi Max_mod_upt [OF R C] by simp
  have at: "assigned_at ?evs r c = [?g (r * C + c)]" if rc: "r < R" "c < C" for r c
  proof -
    have k: "r * C + c < R * C"
    proof -
      from rc have "r * C + c < r * C + C" by simp
      also have "\<dots> = Suc r * C" by simp
      also from rc have "\<dots> \<le> R * C" by (intro mult_le_mono1) simp
      finally show ?thesis .
    qed
    have "(k div C = r \<and> k mod C = c) = (k = r * C + c)" for k
      using rc by auto
    then have "filter (\<lambda>k. int (k div C) = int r \<and> int (k mod C) = int c) [0..<R * C] =
               filter (\<lambda>k. k = r * C + c) [0..<R * C]"
      by simp
    with k show ?thesis
      by (simp add: assigned_at_def filter_map comp_def ev_x_def ev_y_def astype_int_of_nat
          filter_eq_upt)
  qed
  have "ravel img = data"
  proof (rule nth_equalityI)
    show "length (ravel img) = length data"
      using wf by (simp add: wf_image_def sR sC len)
  next
    fix k assume "k < length (ravel img)"
    then have k: "k < R * C" using wf by (simp add: wf_image_def sR sC)
    then have d: "k div C < R" by (simp add: less_mult_imp_div_less)
    from C have m: "k mod C < C" by simp
    from n [of "k div C" "k mod C"] d m at [OF d m]
    have "cell img (k div C) (k mod C) = data ! k" by (simp add: sR sC ev_I_def)
    then show "ravel img ! k = data ! k" by (simp add: cell_def sC)
  qed
  with sR sC have "img = \<lparr>shape0 = R, shape1 = C, ravel = data\<rparr>" by simp
  with r show ?thesis by simp
qed

subsection \<open>File name extensions\<close>

lemma length_lower: "length (lower s) = length s"
  by (simp add: lower_def)

lemma lower_last_chars: "lower (last_chars n s) = last_chars n (lower s)"
  by (simp add: last_chars_def lower_def drop_map)

lemma last_chars_eq_iff:
  assumes "length ext = n"
  shows "last_chars n s = ext \<longleftrightarrow> suffix ext s"
proof
  assume "last_chars n s = ext"
  then show "suffix ext s"
    by (auto simp: last_chars_def suffix_drop split: if_splits)
next
  assume "suffix ext s"
  then obtain zs where s: "s = zs @ ext" by (auto simp: suffix_def)
  with assms show "last_chars n s = ext"
    by (auto simp: last_chars_def)
qed

lemma lower_last_chars_eq_iff:
  "length ext = n \<Longrightarrow> lower (last_chars n filename) = ext \<longleftrightarrow> has_extension ext filename"
  by (simp add: lower_last_chars last_chars_eq_iff has_extension_def)

lemma last_chars_eq_has_extension:
  assumes "last_chars n filename = ext" and "length ext = n" and "lower ext = ext"
  shows "has_extension ext filename"
proof -
  from assms(1) have "lower (last_chars n filename) = lower ext" by simp
  with assms(3) have "lower (last_chars n filename) = ext" by simp
  with assms(2) show ?thesis by (simp add: lower_last_chars_eq_iff)
qed

section \<open>The claims\<close>

text \<open>
  C5. For every coordinate value \<open>v \<ge> 0.5\<close>, truncation toward zero of \<open>v - 0.5\<close> equals
  \<open>floor (v - 0.5)\<close>; hence for events whose coordinates are pixel-center values, the
  indices that \<open>photon_events_to_image\<close> computes by truncation are the floor-based
  indices \<open>c = floor (x - 0.5)\<close> and \<open>r = floor (y - 0.5)\<close> of the contract.
\<close>

theorem truncation_is_floor:
  "(1 / 2 \<le> v \<longrightarrow> astype_int (v - 1 / 2) = \<lfloor>v - 1 / 2\<rfloor>) \<and>
   (pixel_centered evs \<longrightarrow>
      xind evs = map (\<lambda>e. \<lfloor>ev_x e - 1 / 2\<rfloor>) evs \<and>
      yind evs = map (\<lambda>e. \<lfloor>ev_y e - 1 / 2\<rfloor>) evs)"
  by (simp add: astype_int_def xind_def yind_def pixel_centered_def pixel_center_def
      list_all_iff)

theorem truncation_is_floor_witness:
  "(1 / 2 :: real) \<le> 7 / 2 \<and> astype_int (7 / 2 - 1 / 2) = \<lfloor>7 / 2 - 1 / 2 :: real\<rfloor> \<and>
   pixel_centered [(7 / 2, 5 / 2, 7)] \<and>
   xind [(7 / 2, 5 / 2, 7)] = [3] \<and> yind [(7 / 2, 5 / 2, 7)] = [2]"
proof -
  have h: "pixel_centered [(7 / 2, 5 / 2, 7)]"
    by (simp add: pixel_centered_def pixel_center_def ev_x_def ev_y_def)
  from truncation_is_floor [of "7 / 2" "[(7 / 2, 5 / 2, 7)]"] h show ?thesis
    by (simp add: ev_x_def ev_y_def)
qed

text \<open>
  C2. For every image of shape \<open>(R, C)\<close>, \<open>image_to_photon_events\<close> yields exactly
  \<open>R * C\<close> triples, and the triple at flat position \<open>r * C + c\<close> (columns enumerated
  fastest within each row) is \<open>(c + 0.5, r + 0.5, image[r][c])\<close>; an empty image yields
  an empty event sequence.
\<close>

theorem image_to_photon_events_listing:
  assumes "wf_image img"
  shows "\<exists>evs. image_to_photon_events img = Inr evs \<and>
           length evs = shape0 img * shape1 img \<and>
           (\<forall>r<shape0 img. \<forall>c<shape1 img.
              evs ! (r * shape1 img + c) = (real c + 1 / 2, real r + 1 / 2, cell img r c)) \<and>
           (shape0 img * shape1 img = 0 \<longrightarrow> evs = [])"
proof -
  let ?R = "shape0 img" and ?C = "shape1 img"
  let ?evs = "map (\<lambda>k. (real (k mod ?C) + 1 / 2, real (k div ?C) + 1 / 2, ravel img ! k))
                [0..<?R * ?C]"
  have "?evs ! (r * ?C + c) = (real c + 1 / 2, real r + 1 / 2, cell img r c)"
    if rc: "r < ?R" "c < ?C" for r c
  proof -
    from rc have "r * ?C + c < r * ?C + ?C" by simp
    also have "\<dots> = Suc r * ?C" by simp
    also from rc have "\<dots> \<le> ?R * ?C" by (intro mult_le_mono1) simp
    finally have "r * ?C + c < ?R * ?C" .
    with rc show ?thesis by (simp add: cell_def)
  qed
  with image_to_photon_events_closed [OF assms] show ?thesis by simp
qed

theorem image_to_photon_events_listing_witness:
  "wf_image \<lparr>shape0 = 2, shape1 = 3, ravel = [1, 2, 3, 4, 5, 6]\<rparr> \<and>
   (\<exists>evs. image_to_photon_events \<lparr>shape0 = 2, shape1 = 3, ravel = [1, 2, 3, 4, 5, 6]\<rparr> = Inr evs \<and>
      length evs = 6 \<and> evs ! 5 = (5 / 2, 3 / 2, 6)) \<and>
   wf_image \<lparr>shape0 = 0, shape1 = 3, ravel = []\<rparr> \<and>
   image_to_photon_events \<lparr>shape0 = 0, shape1 = 3, ravel = []\<rparr> = Inr []"
proof -
  let ?empty = "\<lparr>shape0 = 0, shape1 = 3, ravel = [] :: real list\<rparr>"
  have h0: "wf_image ?empty" by (simp add: wf_image_def)
  from image_to_photon_events_listing [OF h0] have e0: "image_to_photon_events ?empty = Inr []"
    by auto
  let ?img = "\<lparr>shape0 = 2, shape1 = 3, ravel = [1, 2, 3, 4, 5, 6 :: real]\<rparr>"
  have h: "wf_image ?img" by (simp add: wf_image_def)
  from image_to_photon_events_listing [OF h] obtain evs where
    e: "image_to_photon_events ?img = Inr evs" and l: "length evs = 6" and
    n: "\<And>r c. r < 2 \<Longrightarrow> c < 3 \<Longrightarrow> evs ! (r * 3 + c) = (real c + 1 / 2, real r + 1 / 2, cell ?img r c)"
    by auto
  from n [of 1 2] have "evs ! 5 = (5 / 2, 3 / 2, 6)" by (simp add: cell_def)
  with h e l h0 e0 show ?thesis by simp
qed

text \<open>
  C3. For every non-empty events sequence with pixel-center coordinates,
  \<open>photon_events_to_image\<close> returns an image of shape \<open>(max r + 1, max c + 1)\<close> over
  the indices \<open>r = floor (y - 0.5)\<close> and \<open>c = floor (x - 0.5)\<close>; a cell that no event hits
  is zero, and a cell hit by one or more events holds the intensity of the last of them.
\<close>

theorem photon_events_to_image_contract:
  assumes "evs \<noteq> []" and "pixel_centered evs"
  shows "\<exists>img. photon_events_to_image evs = Inr img \<and> wf_image img \<and>
           int (shape0 img) = Max (set (map (\<lambda>e. \<lfloor>ev_y e - 1 / 2\<rfloor>) evs)) + 1 \<and>
           int (shape1 img) = Max (set (map (\<lambda>e. \<lfloor>ev_x e - 1 / 2\<rfloor>) evs)) + 1 \<and>
           (\<forall>r<shape0 img. \<forall>c<shape1 img. cell img r c =
              (if events_at evs r c = [] then 0 else ev_I (last (events_at evs r c))))"
proof -
  have "\<forall>e\<in>set evs. - 1 / 2 < ev_x e \<and> - 1 / 2 < ev_y e"
    using pixel_centered_floor(3,4) [OF assms(2)] by blast
  from photon_events_to_image_cells [OF assms(1) this] show ?thesis
    unfolding pixel_centered_indices [OF assms(2)] .
qed

theorem photon_events_to_image_contract_witness:
  "[(3 / 2, 1 / 2, 7), (1 / 2, 3 / 2, 2), (3 / 2, 1 / 2, 9)] \<noteq> ([] :: event list) \<and>
   pixel_centered [(3 / 2, 1 / 2, 7), (1 / 2, 3 / 2, 2), (3 / 2, 1 / 2, 9)] \<and>
   (\<exists>img. photon_events_to_image [(3 / 2, 1 / 2, 7), (1 / 2, 3 / 2, 2), (3 / 2, 1 / 2, 9)] = Inr img \<and>
      shape0 img = 2 \<and> shape1 img = 2 \<and> cell img 0 1 = 9 \<and> cell img 1 1 = 0)"
proof -
  let ?evs = "[(3 / 2, 1 / 2, 7), (1 / 2, 3 / 2, 2), (3 / 2, 1 / 2, 9)] :: event list"
  have h: "pixel_centered ?evs"
    by (simp add: pixel_centered_def pixel_center_def ev_x_def ev_y_def)
  have ne: "?evs \<noteq> []" by simp
  from photon_events_to_image_contract [OF ne h] obtain img where
    r: "photon_events_to_image ?evs = Inr img" and
    s0: "int (shape0 img) = Max (set (map (\<lambda>e. \<lfloor>ev_y e - 1 / 2\<rfloor>) ?evs)) + 1" and
    s1: "int (shape1 img) = Max (set (map (\<lambda>e. \<lfloor>ev_x e - 1 / 2\<rfloor>) ?evs)) + 1" and
    n: "\<And>r c. r < shape0 img \<Longrightarrow> c < shape1 img \<Longrightarrow> cell img r c =
          (if events_at ?evs r c = [] then 0 else ev_I (last (events_at ?evs r c)))"
    by blast
  from s0 have R: "shape0 img = 2" by (simp add: ev_y_def)
  from s1 have C: "shape1 img = 2" by (simp add: ev_x_def)
  from n [of 0 1] R C have "cell img 0 1 = 9"
    by (simp add: events_at_def ev_x_def ev_y_def ev_I_def)
  moreover from n [of 1 1] R C have "cell img 1 1 = 0"
    by (simp add: events_at_def ev_x_def ev_y_def ev_I_def)
  ultimately show ?thesis using h r R C by simp
qed

text \<open>
  C4. On an empty events sequence \<open>photon_events_to_image\<close> raises (the ValueError of the
  maximum of an empty array) and returns no image; on every non-empty events sequence with
  pixel-center coordinates it returns an image, with at least one row and one column.
\<close>

theorem photon_events_to_image_errors:
  "photon_events_to_image [] = Inl ValueError \<and>
   (evs \<noteq> [] \<and> pixel_centered evs \<longrightarrow>
      (\<exists>img. photon_events_to_image evs = Inr img \<and> wf_image img \<and>
         0 < shape0 img \<and> 0 < shape1 img))"
proof (intro conjI impI)
  show "photon_events_to_image [] = Inl ValueError"
    by (simp add: photon_events_to_image_def yind_def)
next
  assume a: "evs \<noteq> [] \<and> pixel_centered evs"
  then have ne: "evs \<noteq> []" and pc: "pixel_centered evs" by simp_all
  have pos: "\<forall>e\<in>set evs. - 1 / 2 < ev_x e \<and> - 1 / 2 < ev_y e"
    using pixel_centered_floor(3,4) [OF pc] by blast
  from photon_events_to_image_cells [OF ne pos] obtain img where
    r: "photon_events_to_image evs = Inr img" "wf_image img" and
    s0: "int (shape0 img) = Max (set (yind evs)) + 1" and
    s1: "int (shape1 img) = Max (set (xind evs)) + 1"
    by blast
  from ne obtain e where e: "e \<in> set evs" by (cases evs) auto
  have "0 \<le> astype_int (ev_y e - 1 / 2)" "0 \<le> astype_int (ev_x e - 1 / 2)"
    using pos e by (simp_all add: astype_int_nonneg)
  moreover have "astype_int (ev_y e - 1 / 2) \<le> Max (set (yind evs))"
    using e by (simp add: yind_def)
  moreover have "astype_int (ev_x e - 1 / 2) \<le> Max (set (xind evs))"
    using e by (simp add: xind_def)
  ultimately have "0 < shape0 img" "0 < shape1 img" using s0 s1 by linarith+
  with r show "\<exists>img. photon_events_to_image evs = Inr img \<and> wf_image img \<and>
         0 < shape0 img \<and> 0 < shape1 img" by blast
qed

theorem photon_events_to_image_errors_witness:
  "photon_events_to_image [] = Inl ValueError \<and>
   [(3 / 2, 1 / 2, 7)] \<noteq> ([] :: event list) \<and> pixel_centered [(3 / 2, 1 / 2, 7)] \<and>
   (\<exists>img. photon_events_to_image [(3 / 2, 1 / 2, 7)] = Inr img \<and> wf_image img \<and>
      0 < shape0 img \<and> 0 < shape1 img)"
proof -
  have h: "pixel_centered [(3 / 2, 1 / 2, 7)]"
    by (simp add: pixel_centered_def pixel_center_def ev_x_def ev_y_def)
  from photon_events_to_image_errors [of "[(3 / 2, 1 / 2, 7)]"] h show ?thesis
    by simp
qed




text \<open>
  C1. For every image of shape \<open>(R, C)\<close> with \<open>R * C \<ge> 1\<close>, converting it to photon events
  and back gives the original image: the same shape and the same value in every cell.
\<close>

theorem image_events_image_roundtrip:
  assumes "wf_image img" and "1 \<le> shape0 img * shape1 img"
  shows "\<exists>evs. image_to_photon_events img = Inr evs \<and> photon_events_to_image evs = Inr img"
proof -
  from assms(1) have "length (ravel img) = shape0 img * shape1 img"
    by (simp add: wf_image_def)
  from photon_events_to_image_grid [OF this assms(2)] image_to_photon_events_closed [OF assms(1)]
  show ?thesis by simp
qed

theorem image_events_image_roundtrip_witness:
  "wf_image \<lparr>shape0 = 2, shape1 = 2, ravel = [1, 2, 3, 4]\<rparr> \<and>
   (1 :: nat) \<le> shape0 \<lparr>shape0 = 2, shape1 = 2, ravel = [1, 2, 3, 4]\<rparr> *
                shape1 \<lparr>shape0 = 2, shape1 = 2, ravel = [1, 2, 3, 4]\<rparr> \<and>
   image_to_photon_events \<lparr>shape0 = 2, shape1 = 2, ravel = [1, 2, 3, 4]\<rparr> =
     Inr [(1 / 2, 1 / 2, 1), (3 / 2, 1 / 2, 2), (1 / 2, 3 / 2, 3), (3 / 2, 3 / 2, 4)] \<and>
   photon_events_to_image [(1 / 2, 1 / 2, 1), (3 / 2, 1 / 2, 2), (1 / 2, 3 / 2, 3), (3 / 2, 3 / 2, 4)] =
     Inr \<lparr>shape0 = 2, shape1 = 2, ravel = [1, 2, 3, 4]\<rparr>"
proof -
  let ?img = "\<lparr>shape0 = 2, shape1 = 2, ravel = [1, 2, 3, 4 :: real]\<rparr>"
  have h: "wf_image ?img" by (simp add: wf_image_def)
  have g: "1 \<le> shape0 ?img * shape1 ?img" by simp
  have e: "image_to_photon_events ?img =
           Inr [(1 / 2, 1 / 2, 1), (3 / 2, 1 / 2, 2), (1 / 2, 3 / 2, 3), (3 / 2, 3 / 2, 4)]"
    by (simp add: image_to_photon_events_def meshgrid_def arange_half_def vstack_transpose_def
        upt_conv_Cons)
  from image_events_image_roundtrip [OF h g] e h show ?thesis by simp
qed

text \<open>
  C9. The claim is that the two conversions are exact inverses in both directions, so that for
  every non-empty events sequence with pixel-center coordinates the conversion to an image and
  back returns the same sequence. It fails for a sequence that does not list every pixel:
  the single event \<open>(1.5, 0.5, 7)\<close> gives the image \<open>[[0, 7]]\<close>, whose events are
  \<open>(0.5, 0.5, 0), (1.5, 0.5, 7)\<close>.
\<close>

theorem events_image_events_counterexample:
  "[(3 / 2, 1 / 2, 7)] \<noteq> ([] :: event list) \<and> pixel_centered [(3 / 2, 1 / 2, 7)] \<and>
   photon_events_to_image [(3 / 2, 1 / 2, 7)] = Inr \<lparr>shape0 = 1, shape1 = 2, ravel = [0, 7]\<rparr> \<and>
   image_to_photon_events \<lparr>shape0 = 1, shape1 = 2, ravel = [0, 7]\<rparr> =
     Inr [(1 / 2, 1 / 2, 0), (3 / 2, 1 / 2, 7)] \<and>
   [(1 / 2, 1 / 2, 0), (3 / 2, 1 / 2, 7)] \<noteq> [(3 / 2, 1 / 2, 7 :: real) :: event]"
proof -
  have "pixel_centered [(3 / 2, 1 / 2, 7)]"
    by (simp add: pixel_centered_def pixel_center_def ev_x_def ev_y_def)
  moreover have "photon_events_to_image [(3 / 2, 1 / 2, 7)] =
                 Inr \<lparr>shape0 = 1, shape1 = 2, ravel = [0, 7]\<rparr>"
    by (simp add: photon_events_to_image_def xind_def yind_def ev_x_def ev_y_def ev_I_def
        astype_int_def zeros_def norm_index_def numeral_2_eq_2)
  moreover have "image_to_photon_events \<lparr>shape0 = 1, shape1 = 2, ravel = [0, 7]\<rparr> =
                 Inr [(1 / 2, 1 / 2, 0), (3 / 2, 1 / 2, 7)]"
    by (simp add: image_to_photon_events_def meshgrid_def arange_half_def vstack_transpose_def
        upt_conv_Cons)
  ultimately show ?thesis by simp
qed

text \<open>
  C9, amended. For every events sequence that is the complete row-major listing of an
  \<open>R\<close> by \<open>C\<close> grid with \<open>R * C \<ge> 1\<close> (length \<open>R * C\<close>, the event at position
  \<open>r * C + c\<close> having coordinates \<open>(c + 0.5, r + 0.5)\<close>), the conversion to an image gives
  an image of shape \<open>(R, C)\<close> whose events are the original sequence, and whose events
  convert back to that image: on complete listings the two conversions are inverse to each
  other in both directions.
\<close>

theorem conversions_inverse_on_complete_listings:
  assumes "1 \<le> R * C" and "length evs = R * C"
    and "\<forall>r<R. \<forall>c<C. ev_x (evs ! (r * C + c)) = real c + 1 / 2 \<and>
                       ev_y (evs ! (r * C + c)) = real r + 1 / 2"
  shows "\<exists>img. photon_events_to_image evs = Inr img \<and> shape0 img = R \<and> shape1 img = C \<and>
           image_to_photon_events img = Inr evs \<and>
           (\<exists>evs'. image_to_photon_events img = Inr evs' \<and> photon_events_to_image evs' = Inr img)"
proof -
  let ?img = "\<lparr>shape0 = R, shape1 = C, ravel = map ev_I evs\<rparr>"
  from assms(1) have C: "0 < C" by (cases C) simp_all
  have wf: "wf_image ?img" using assms(2) by (simp add: wf_image_def)
  have len: "length (map ev_I evs) = R * C" using assms(2) by simp
  have "evs = map (\<lambda>k. (real (k mod C) + 1 / 2, real (k div C) + 1 / 2, map ev_I evs ! k))
                [0..<R * C]"
  proof (rule nth_equalityI)
    show "length evs = length (map (\<lambda>k. (real (k mod C) + 1 / 2, real (k div C) + 1 / 2,
                                          map ev_I evs ! k)) [0..<R * C])"
      using assms(2) by simp
  next
    fix k assume "k < length evs"
    then have k: "k < R * C" using assms(2) by simp
    then have d: "k div C < R" by (simp add: less_mult_imp_div_less)
    from C have m: "k mod C < C" by simp
    from assms(3) d m have "ev_x (evs ! (k div C * C + k mod C)) = real (k mod C) + 1 / 2 \<and>
                            ev_y (evs ! (k div C * C + k mod C)) = real (k div C) + 1 / 2"
      by blast
    then have "ev_x (evs ! k) = real (k mod C) + 1 / 2" "ev_y (evs ! k) = real (k div C) + 1 / 2"
      by simp_all
    then have "evs ! k = (real (k mod C) + 1 / 2, real (k div C) + 1 / 2, ev_I (evs ! k))"
      by (cases "evs ! k") (simp add: ev_x_def ev_y_def ev_I_def)
    with k assms(2) show "evs ! k = map (\<lambda>k. (real (k mod C) + 1 / 2, real (k div C) + 1 / 2,
                                  map ev_I evs ! k)) [0..<R * C] ! k"
      by simp
  qed
  then have closed: "map (\<lambda>k. (real (k mod C) + 1 / 2, real (k div C) + 1 / 2, map ev_I evs ! k))
                [0..<R * C] = evs" by simp
  have "photon_events_to_image evs = Inr ?img"
    using photon_events_to_image_grid [OF len assms(1)] unfolding closed .
  moreover have "image_to_photon_events ?img =
      Inr (map (\<lambda>k. (real (k mod C) + 1 / 2, real (k div C) + 1 / 2, map ev_I evs ! k))
             [0..<R * C])"
    using image_to_photon_events_closed [OF wf] by simp
  then have "image_to_photon_events ?img = Inr evs" unfolding closed .
  ultimately show ?thesis by simp
qed

theorem conversions_inverse_on_complete_listings_witness:
  "(1 :: nat) \<le> 1 * 2 \<and> length [(1 / 2, 1 / 2, 0), (3 / 2, 1 / 2, 7 :: real) :: event] = 1 * 2 \<and>
   ev_x ([(1 / 2, 1 / 2, 0), (3 / 2, 1 / 2, 7)] ! (0 * 2 + 0)) = real 0 + 1 / 2 \<and>
   ev_y ([(1 / 2, 1 / 2, 0), (3 / 2, 1 / 2, 7)] ! (0 * 2 + 0)) = real 0 + 1 / 2 \<and>
   ev_x ([(1 / 2, 1 / 2, 0), (3 / 2, 1 / 2, 7)] ! (0 * 2 + 1)) = real 1 + 1 / 2 \<and>
   ev_y ([(1 / 2, 1 / 2, 0), (3 / 2, 1 / 2, 7)] ! (0 * 2 + 1)) = real 0 + 1 / 2 \<and>
   (\<exists>img. photon_events_to_image [(1 / 2, 1 / 2, 0), (3 / 2, 1 / 2, 7)] = Inr img \<and>
      image_to_photon_events img = Inr [(1 / 2, 1 / 2, 0), (3 / 2, 1 / 2, 7)])"
proof -
  let ?evs = "[(1 / 2, 1 / 2, 0), (3 / 2, 1 / 2, 7)] :: event list"
  have a: "(1 :: nat) \<le> 1 * 2" by simp
  have b: "length ?evs = 1 * 2" by simp
  have c: "\<forall>r<1 :: nat. \<forall>c<2 :: nat.
      ev_x (?evs ! (r * 2 + c)) = real c + 1 / 2 \<and> ev_y (?evs ! (r * 2 + c)) = real r + 1 / 2"
    by (simp add: ev_x_def ev_y_def less_Suc_eq numeral_2_eq_2)
  have d: "ev_x (?evs ! (0 * 2 + 0)) = real 0 + 1 / 2" "ev_y (?evs ! (0 * 2 + 0)) = real 0 + 1 / 2"
    "ev_x (?evs ! (0 * 2 + 1)) = real 1 + 1 / 2" "ev_y (?evs ! (0 * 2 + 1)) = real 0 + 1 / 2"
    by (simp_all add: ev_x_def ev_y_def)
  from conversions_inverse_on_complete_listings [OF a b c] obtain img where
    "photon_events_to_image ?evs = Inr img" "image_to_photon_events img = Inr ?evs"
    by blast
  with a b d show ?thesis by blast
qed

text \<open>
  C6. The claim is that a file name ending in \<open>.txt\<close>, \<open>.dat\<close> or \<open>.spec\<close>, in any letter
  case, is read by \<open>loadtxt\<close>, the three alike. The code compares the last four characters
  with each extension, without lowering them: \<open>.spec\<close> has five characters and never
  matches, and an upper-case \<open>.TXT\<close> does not match either, so both file names raise the
  wrong-file-extension exception; the lower-case \<open>.txt\<close> and \<open>.dat\<close> are read by
  \<open>loadtxt\<close>.
\<close>

theorem get_spectrum_text_extensions:
  "has_extension ''.spec'' ''scan.spec'' \<and>
   get_spectrum loadtxt h5_spectrum ''scan.spec'' = Inl (Exception ''Wrong file extension'') \<and>
   has_extension ''.txt'' ''scan.TXT'' \<and>
   get_spectrum loadtxt h5_spectrum ''scan.TXT'' = Inl (Exception ''Wrong file extension'') \<and>
   get_spectrum loadtxt h5_spectrum ''scan.txt'' = loadtxt ''scan.txt'' \<and>
   get_spectrum loadtxt h5_spectrum ''scan.dat'' = loadtxt ''scan.dat''"
  by (simp add: get_spectrum_def last_chars_def has_extension_def lower_def lower_char_def
      suffix_to_prefix)

text \<open>
  C7. For every file name whose extension is none of \<open>.h5\<close>, \<open>.tif\<close> and \<open>.nxs\<close>,
  \<open>get_image\<close> prints a diagnostic line and returns no result (\<open>None\<close>); it does not
  raise and calls no reader.
\<close>

theorem get_image_unknown_extension:
  assumes "\<not> has_extension ''.h5'' filename" and "\<not> has_extension ''.tif'' filename"
    and "\<not> has_extension ''.nxs'' filename"
  shows "get_image h5_events imread nxload filename =
         ([''Unknown file extention '' @ filename], Inr NoneValue)"
proof -
  from assms have "lower (last_chars 3 filename) \<noteq> ''.h5''"
    "lower (last_chars 4 filename) \<noteq> ''.tif''" "lower (last_chars 4 filename) \<noteq> ''.nxs''"
    by (simp_all add: lower_last_chars_eq_iff)
  then show ?thesis by (simp add: get_image_def)
qed

theorem get_image_unknown_extension_witness:
  "\<not> has_extension ''.h5'' ''scan.xyz'' \<and> \<not> has_extension ''.tif'' ''scan.xyz'' \<and>
   \<not> has_extension ''.nxs'' ''scan.xyz'' \<and>
   get_image (\<lambda>f. Inl (IOError f)) (\<lambda>f. Inl (IOError f)) (\<lambda>f. Inl (IOError f)) ''scan.xyz'' =
     ([''Unknown file extention scan.xyz''], Inr NoneValue)"
proof -
  have h: "\<not> has_extension ''.h5'' ''scan.xyz''" "\<not> has_extension ''.tif'' ''scan.xyz''"
    "\<not> has_extension ''.nxs'' ''scan.xyz''"
    by (simp_all add: has_extension_def lower_def lower_char_def suffix_to_prefix)
  from get_image_unknown_extension [OF h] h show ?thesis by simp
qed

text \<open>
  C8. For every file name whose extension is none of \<open>.txt\<close>, \<open>.dat\<close>, \<open>.spec\<close> and
  \<open>.h5\<close>, \<open>get_spectrum\<close> raises its wrong-file-extension exception and returns no
  result.
\<close>

theorem get_spectrum_unknown_extension:
  assumes "\<not> has_extension ''.txt'' filename" and "\<not> has_extension ''.dat'' filename"
    and "\<not> has_extension ''.spec'' filename" and "\<not> has_extension ''.h5'' filename"
  shows "get_spectrum loadtxt h5_spectrum filename = Inl (Exception ''Wrong file extension'')"
proof -
  have low: "lower ''.txt'' = ''.txt''" "lower ''.dat'' = ''.dat''"
    by (simp_all add: lower_def lower_char_def)
  from assms(1) have "last_chars 4 filename \<noteq> ''.txt''"
    using last_chars_eq_has_extension [of 4 filename "''.txt''"] low by auto
  moreover from assms(2) have "last_chars 4 filename \<noteq> ''.dat''"
    using last_chars_eq_has_extension [of 4 filename "''.dat''"] low by auto
  moreover have "last_chars 4 filename \<noteq> ''.spec''"
  proof
    assume "last_chars 4 filename = ''.spec''"
    then have "length (last_chars 4 filename) = 5" by simp
    then show False by (simp add: last_chars_def split: if_splits)
  qed
  moreover from assms(4) have "lower (last_chars 3 filename) \<noteq> ''.h5''"
    by (simp add: lower_last_chars_eq_iff)
  ultimately show ?thesis by (simp add: get_spectrum_def)
qed

theorem get_spectrum_unknown_extension_witness:
  "\<not> has_extension ''.txt'' ''scan.xyz'' \<and> \<not> has_extension ''.dat'' ''scan.xyz'' \<and>
   \<not> has_extension ''.spec'' ''scan.xyz'' \<and> \<not> has_extension ''.h5'' ''scan.xyz'' \<and>
   get_spectrum (\<lambda>f. Inr [[1, 2]]) (\<lambda>f. Inr [3]) ''scan.xyz'' =
     Inl (Exception ''Wrong file extension'')"
proof -
  have h: "\<not> has_extension ''.txt'' ''scan.xyz''" "\<not> has_extension ''.dat'' ''scan.xyz''"
    "\<not> has_extension ''.spec'' ''scan.xyz''" "\<not> has_extension ''.h5'' ''scan.xyz''"
    by (simp_all add: has_extension_def lower_def lower_char_def suffix_to_prefix)
  from get_spectrum_unknown_extension [OF h] h show ?thesis by simp
qed

end
